theory Spec2Isabelle
  imports Main
begin

section \<open>Python values used by check-no-cyrillic.py\<close>

text \<open>
  A Python \<open>str\<close> is a sequence of Unicode code points; \<open>len\<close>, slicing, \<open>strip\<close> and the
  regular expression all count code points. A code point is a natural number here
  (U+0400 is 1024), and a string literal of the script is written with \<open>ascii\<close>.
\<close>

type_synonym codepoint = nat
type_synonym pystr = "codepoint list"

definition ascii :: "string \<Rightarrow> pystr" where
  "ascii s = map of_char s"

text \<open>\<open>str.isspace\<close> for one character, the set \<open>str.strip()\<close> removes: the ASCII
  whitespace table of CPython (U+0009..U+000D, U+001C..U+001F, U+0020) and the Unicode
  white-space characters beyond ASCII.\<close>

definition isspace :: "codepoint \<Rightarrow> bool" where
  "isspace c \<longleftrightarrow>
     (9 \<le> c \<and> c \<le> 13) \<or> (28 \<le> c \<and> c \<le> 31) \<or> c = 32 \<or> c = 133 \<or> c = 160 \<or>
     c = 5760 \<or> (8192 \<le> c \<and> c \<le> 8202) \<or> c = 8232 \<or> c = 8233 \<or> c = 8239 \<or>
     c = 8287 \<or> c = 12288"

definition lstrip :: "pystr \<Rightarrow> pystr" where
  "lstrip s = dropWhile isspace s"

definition rstrip :: "pystr \<Rightarrow> pystr" where
  "rstrip s = rev (dropWhile isspace (rev s))"

definition strip :: "pystr \<Rightarrow> pystr" where
  "strip s = rstrip (lstrip s)"

text \<open>The line boundaries of \<open>str.splitlines()\<close>: LF, VT, FF, CR, FS, GS, RS, NEL, LS, PS;
  CR LF counts as one boundary.\<close>

definition is_linebreak :: "codepoint \<Rightarrow> bool" where
  "is_linebreak c \<longleftrightarrow>
     (10 \<le> c \<and> c \<le> 13) \<or> (28 \<le> c \<and> c \<le> 30) \<or> c = 133 \<or> c = 8232 \<or> c = 8233"

fun splitlines_from :: "pystr \<Rightarrow> pystr \<Rightarrow> pystr list" where
  "splitlines_from cur [] = (if cur = [] then [] else [cur])"
| "splitlines_from cur [c] = (if is_linebreak c then [cur] else [cur @ [c]])"
| "splitlines_from cur (c # d # cs) =
     (if c = 13 \<and> d = 10 then cur # splitlines_from [] cs
      else if is_linebreak c then cur # splitlines_from [] (d # cs)
      else splitlines_from (cur @ [c]) (d # cs))"

definition splitlines :: "pystr \<Rightarrow> pystr list" where
  "splitlines s = splitlines_from [] s"

text \<open>\<open>str.split(sep)\<close> for a one-character separator, and \<open>sep.join\<close>.\<close>

fun split_from :: "codepoint \<Rightarrow> pystr \<Rightarrow> pystr \<Rightarrow> pystr list" where
  "split_from sep cur [] = [cur]"
| "split_from sep cur (c # cs) =
     (if c = sep then cur # split_from sep [] cs else split_from sep (cur @ [c]) cs)"

definition split :: "codepoint \<Rightarrow> pystr \<Rightarrow> pystr list" where
  "split sep s = split_from sep [] s"

fun join :: "pystr \<Rightarrow> pystr list \<Rightarrow> pystr" where
  "join sep [] = []"
| "join sep [x] = x"
| "join sep (x # y # ys) = x @ sep @ join sep (y # ys)"

text \<open>\<open>str(n)\<close> for a non-negative integer: its decimal digits.\<close>

fun str_of_nat :: "nat \<Rightarrow> pystr" where
  "str_of_nat n = (if n < 10 then [48 + n] else str_of_nat (n div 10) @ [48 + n mod 10])"

declare str_of_nat.simps [simp del]

text \<open>The number a string of decimal digits denotes (the reading of a line number in a
  report, not a function of the script).\<close>

definition is_digit :: "codepoint \<Rightarrow> bool" where
  "is_digit c \<longleftrightarrow> 48 \<le> c \<and> c \<le> 57"

definition decimal_value :: "pystr \<Rightarrow> nat" where
  "decimal_value s = foldl (\<lambda>a c. 10 * a + (c - 48)) 0 s"

subsection \<open>pathlib paths (POSIX flavour)\<close>

text \<open>
  \<open>Path(raw)\<close> keeps the root (\<open>/\<close>, or \<open>//\<close> for exactly two leading slashes) and the
  components of the rest that are neither empty nor \<open>.\<close>; \<open>str(path)\<close> joins them again
  and is \<open>.\<close> for the empty path.
\<close>

datatype path = PurePath (root: pystr) (parts: "pystr list")

definition splitroot :: "pystr \<Rightarrow> pystr \<times> pystr" where
  "splitroot p =
     (if take 1 p \<noteq> ascii ''/'' then ([], p)
      else if take 1 (drop 1 p) \<noteq> ascii ''/'' \<or> take 1 (drop 2 p) = ascii ''/''
        then (ascii ''/'', drop 1 p)
      else (take 2 p, drop 2 p))"

definition Path :: "pystr \<Rightarrow> path" where
  "Path raw =
     (case splitroot raw of
        (rt, rel) \<Rightarrow> PurePath rt (filter (\<lambda>x. x \<noteq> [] \<and> x \<noteq> ascii ''.'') (split 47 rel)))"

definition path_str :: "path \<Rightarrow> pystr" where
  "path_str p =
     (let s = root p @ join (ascii ''/'') (parts p) in if s = [] then ascii ''.'' else s)"

definition name :: "path \<Rightarrow> pystr" where
  "name p = (if parts p = [] then [] else last (parts p))"

text \<open>\<open>s.rfind('.')\<close>: the index of the last dot, or -1.\<close>

definition rfind_dot :: "pystr \<Rightarrow> int" where
  "rfind_dot s =
     (if 46 \<in> set s then int (length s) - 1 - int (length (takeWhile (\<lambda>c. c \<noteq> 46) (rev s)))
      else - 1)"

definition suffix :: "path \<Rightarrow> pystr" where
  "suffix p =
     (let nm = name p; i = rfind_dot nm
      in if 0 < i \<and> i < int (length nm) - 1 then drop (nat i) nm else [])"

section \<open>The world the script runs in\<close>

text \<open>
  Everything the script reads from outside: the process environment, the completed
  \<open>git\<close> subprocess (return code and decoded standard output) for an argument vector,
  the file system as \<open>Path.exists\<close>, \<open>Path.is_dir\<close> and \<open>Path.read_text\<close> see it, and
  \<open>str.lower\<close>, whose Unicode case table is not part of the repository.
  \<open>read_text\<close> with \<open>errors="ignore"\<close> gives the decoded text or raises \<open>OSError\<close>.
  \<open>exists\<close> and \<open>is_dir\<close> answer or raise \<open>OSError\<close>: they swallow only the errors that
  mean "no such file" and pass on the others (a name that is too long, a directory that
  may not be searched). The subprocess is taken to start and complete.
\<close>

datatype os_error = OSError

text \<open>The exceptions that can leave \<open>main\<close>: the one \<open>check=True\<close> raises, and an
  \<open>OSError\<close> no handler catches.\<close>

datatype exn = CalledProcessError int | Uncaught os_error

record world =
  environ :: "pystr \<rightharpoonup> pystr"
  subprocess_run :: "pystr list \<Rightarrow> int \<times> pystr"
  path_exists :: "path \<Rightarrow> os_error + bool"
  path_is_dir :: "path \<Rightarrow> os_error + bool"
  read_text :: "path \<Rightarrow> os_error + pystr"
  str_lower :: "pystr \<Rightarrow> pystr"

definition getenv :: "world \<Rightarrow> pystr \<Rightarrow> pystr \<Rightarrow> pystr" where
  "getenv w key dflt = (case environ w key of None \<Rightarrow> dflt | Some v \<Rightarrow> v)"

section \<open>The script\<close>

subsection \<open>Constants\<close>

text \<open>The compiled pattern is one character class with one range; \<open>search\<close> succeeds
  when some character of the string lies in it.\<close>

datatype pattern = CharRange codepoint codepoint

fun search :: "pattern \<Rightarrow> pystr \<Rightarrow> bool" where
  "search (CharRange lo hi) [] = False"
| "search (CharRange lo hi) (c # cs) = ((lo \<le> c \<and> c \<le> hi) \<or> search (CharRange lo hi) cs)"

definition CYRILLIC_PATTERN :: pattern where
  "CYRILLIC_PATTERN = CharRange 0x0400 0x04FF"

definition TEXT_EXTENSIONS :: "pystr set" where
  "TEXT_EXTENSIONS = set (map ascii
     [''.java'', ''.kt'', ''.kts'', ''.groovy'', ''.xml'', ''.yml'', ''.yaml'', ''.md'',
      ''.txt'', ''.properties'', ''.json'', ''.ts'', ''.tsx'', ''.js'', ''.jsx'', ''.css'',
      ''.scss'', ''.html'', ''.sql'', ''.sh'', ''.py''])"

subsection \<open>run_git_command\<close>

text \<open>\<open>check=True\<close> raises \<open>CalledProcessError\<close> on a non-zero return code.\<close>

definition run_git_command :: "world \<Rightarrow> pystr list \<Rightarrow> exn + pystr" where
  "run_git_command w args =
     (case subprocess_run w (ascii ''git'' # args) of
        (returncode, stdout) \<Rightarrow>
          if returncode \<noteq> 0 then Inl (CalledProcessError returncode)
          else Inr (strip stdout))"

subsection \<open>resolve_diff_range\<close>

definition null_sha :: pystr where
  "null_sha = ascii ''0000000000000000000000000000000000000000''"

definition pull_request_range :: "world \<Rightarrow> pystr option" where
  "pull_request_range w =
     (let event_name = getenv w (ascii ''GITHUB_EVENT_NAME'') []
      in if event_name = ascii ''pull_request''
         then (let base_ref = getenv w (ascii ''GITHUB_BASE_REF'') []
               in if base_ref \<noteq> []
                  then (let base_branch = ascii ''origin/'' @ base_ref
                        in Some (base_branch @ ascii ''...HEAD''))
                  else None)
         else None)"

definition resolve_diff_range :: "world \<Rightarrow> pystr" where
  "resolve_diff_range w =
     (case pull_request_range w of
        Some r \<Rightarrow> r
      | None \<Rightarrow>
          (let before_sha = getenv w (ascii ''GITHUB_EVENT_BEFORE'') [];
               github_sha = getenv w (ascii ''GITHUB_SHA'') []
           in if before_sha \<noteq> [] \<and> before_sha \<noteq> null_sha \<and> github_sha \<noteq> []
              then before_sha @ ascii ''...'' @ github_sha
              else ascii ''HEAD~1...HEAD''))"

subsection \<open>list_changed_files\<close>

text \<open>The condition \<open>not path.exists() or path.is_dir()\<close> of line 76: \<open>is_dir\<close> is called
  only when \<open>exists\<close> answered true, and an \<open>OSError\<close> of either call leaves the test.\<close>

definition missing_or_dir :: "world \<Rightarrow> path \<Rightarrow> os_error + bool" where
  "missing_or_dir w p =
     (case path_exists w p of
        Inl e \<Rightarrow> Inl e
      | Inr found \<Rightarrow> if \<not> found then Inr True else path_is_dir w p)"

fun collect_changed :: "world \<Rightarrow> pystr list \<Rightarrow> path list \<Rightarrow> os_error + path list" where
  "collect_changed w [] changed_paths = Inr changed_paths"
| "collect_changed w (raw # rest) changed_paths =
     (if raw = [] then collect_changed w rest changed_paths
      else (let p = Path raw
            in case missing_or_dir w p of
                 Inl e \<Rightarrow> Inl e
               | Inr skip \<Rightarrow>
                   if skip then collect_changed w rest changed_paths
                   else if str_lower w (suffix p) \<in> TEXT_EXTENSIONS
                     then collect_changed w rest (changed_paths @ [p])
                   else collect_changed w rest changed_paths))"

definition list_changed_files :: "world \<Rightarrow> pystr \<Rightarrow> exn + path list" where
  "list_changed_files w diff_range =
     (case run_git_command w [ascii ''diff'', ascii ''--name-only'', diff_range] of
        Inl e \<Rightarrow> Inl e
      | Inr output \<Rightarrow>
          if output = [] then Inr []
          else (case collect_changed w (splitlines output) [] of
                  Inl e \<Rightarrow> Inl (Uncaught e)
                | Inr changed_paths \<Rightarrow> Inr changed_paths))"

subsection \<open>scan_file\<close>

definition make_preview :: "pystr \<Rightarrow> pystr" where
  "make_preview line =
     (let preview = strip line
      in if length preview > 180 then take 177 preview @ ascii ''...'' else preview)"

definition format_violation :: "path \<Rightarrow> nat \<Rightarrow> pystr \<Rightarrow> pystr" where
  "format_violation p index preview =
     path_str p @ ascii '':'' @ str_of_nat index @ ascii '': '' @ preview"

fun scan_lines :: "path \<Rightarrow> nat \<Rightarrow> pystr list \<Rightarrow> pystr list \<Rightarrow> pystr list" where
  "scan_lines p index [] violations = violations"
| "scan_lines p index (line # rest) violations =
     (if search CYRILLIC_PATTERN line
      then scan_lines p (index + 1) rest
             (violations @ [format_violation p index (make_preview line)])
      else scan_lines p (index + 1) rest violations)"

definition scan_file :: "world \<Rightarrow> path \<Rightarrow> pystr list" where
  "scan_file w p =
     (case read_text w p of
        Inl OSError \<Rightarrow> []
      | Inr text \<Rightarrow> scan_lines p 1 (splitlines text) [])"

subsection \<open>main\<close>

text \<open>Standard output is the list of the strings printed, one per \<open>print\<close> call.
  \<open>main\<close> gives what it printed and either the status it returns or the exception
  that leaves it.\<close>

fun scan_all :: "world \<Rightarrow> path list \<Rightarrow> pystr list \<Rightarrow> pystr list" where
  "scan_all w [] all_violations = all_violations"
| "scan_all w (file_path # rest) all_violations =
     scan_all w rest (all_violations @ scan_file w file_path)"

fun print_violations :: "pystr list \<Rightarrow> pystr list \<Rightarrow> pystr list" where
  "print_violations [] out = out"
| "print_violations (violation # rest) out =
     print_violations rest (out @ [ascii ''- '' @ violation])"

definition msg_nothing :: pystr where
  "msg_nothing = ascii ''No changed text files to scan.''"

definition msg_header :: pystr where
  "msg_header = ascii ''Cyrillic characters detected in changed files:''"

definition msg_advice :: pystr where
  "msg_advice = ascii
     ''Use English for PR descriptions, code comments, logs, and user-facing text in changed files.''"

definition msg_clean :: pystr where
  "msg_clean = ascii ''No Cyrillic characters detected in changed files.''"

definition main :: "world \<Rightarrow> pystr list \<times> (exn + int)" where
  "main w =
     (let diff_range = resolve_diff_range w
      in case list_changed_files w diff_range of
           Inl e \<Rightarrow> ([], Inl e)
         | Inr changed_files \<Rightarrow>
             if changed_files = [] then ([msg_nothing], Inr 0)
             else (let all_violations = scan_all w changed_files []
                   in if all_violations \<noteq> []
                      then (print_violations all_violations [msg_header] @ [msg_advice], Inr 1)
                      else ([msg_clean], Inr 0)))"

text \<open>\<open>sys.exit(main())\<close>: the process ends with the status \<open>main\<close> returns; an exception
  that leaves \<open>main\<close> ends the interpreter with status 1.\<close>

definition exit_status :: "world \<Rightarrow> int" where
  "exit_status w = (case snd (main w) of Inr code \<Rightarrow> code | Inl e \<Rightarrow> 1)"

section \<open>Example worlds\<close>

text \<open>\<open>str.lower\<close> on ASCII text.\<close>

definition lower_ascii :: "pystr \<Rightarrow> pystr" where
  "lower_ascii s = map (\<lambda>c. if 65 \<le> c \<and> c \<le> 90 then c + 32 else c) s"

text \<open>A world with no environment variables, one result for every \<open>git\<close> call and a
  table of files: each is a regular file whose \<open>read_text\<close> gives the listed result.\<close>

definition example_world :: "int \<times> pystr \<Rightarrow> (pystr \<times> (os_error + pystr)) list \<Rightarrow> world" where
  "example_world git_result files =
     \<lparr> environ = Map.empty,
       subprocess_run = (\<lambda>argv. git_result),
       path_exists = (\<lambda>p. Inr (p \<in> set (map (\<lambda>(n, r). Path n) files))),
       path_is_dir = (\<lambda>p. Inr False),
       read_text = (\<lambda>p. case map_of (map (\<lambda>(n, r). (Path n, r)) files) p of
                            None \<Rightarrow> Inl OSError | Some r \<Rightarrow> r),
       str_lower = lower_ascii \<rparr>"

text \<open>The line \<open>x = '\<close>U+042F\<open>'\<close>.\<close>

definition cyrillic_line :: pystr where
  "cyrillic_line = ascii ''x = '' @ [39, 0x042F, 39]"

text \<open>Scenario A of the specification: \<open>a.md\<close> is clean, \<open>b.py\<close> has one Cyrillic
  character on line 3.\<close>

definition b_py_text :: pystr where
  "b_py_text = ascii ''import os\<newline>\<newline>'' @ cyrillic_line @ ascii ''\<newline>''"

definition scenario_a :: world where
  "scenario_a = example_world (0, ascii ''a.md\<newline>b.py\<newline>'')
     [(ascii ''a.md'', Inr (ascii ''hello\<newline>'')), (ascii ''b.py'', Inr b_py_text)]"

text \<open>\<open>git diff\<close> fails (not a repository, or an unknown revision).\<close>

definition git_fails :: world where
  "git_fails = example_world (128, []) []"

text \<open>A long line: 200 spaces of indentation, then one Cyrillic letter.\<close>

definition indented_line :: pystr where
  "indented_line = replicate 200 32 @ [0x042F]"

text \<open>A line of 181 Cyrillic letters.\<close>

definition long_line :: pystr where
  "long_line = replicate 181 0x042F"

text \<open>A line of exactly 180 Cyrillic letters.\<close>

definition exact_line :: pystr where
  "exact_line = replicate 180 0x042F"

text \<open>The diff lists nothing.\<close>

definition nothing_changed :: world where
  "nothing_changed = example_world (0, ascii ''\<newline>'') []"

text \<open>Scenario C: the only changed file is clean.\<close>

definition all_clean :: world where
  "all_clean = example_world (0, ascii ''a.md\<newline>'') [(ascii ''a.md'', Inr (ascii ''hello\<newline>''))]"



text \<open>A pull request against \<open>main\<close>; a push from \<open>abc\<close> to \<open>def\<close>; the first push of a
  branch, whose "before" reference is the null commit.\<close>

definition pr_world :: world where
  "pr_world = git_fails
     \<lparr> environ := [ascii ''GITHUB_EVENT_NAME'' \<mapsto> ascii ''pull_request'',
                    ascii ''GITHUB_BASE_REF'' \<mapsto> ascii ''main'',
                    ascii ''GITHUB_EVENT_BEFORE'' \<mapsto> ascii ''abc'',
                    ascii ''GITHUB_SHA'' \<mapsto> ascii ''def''] \<rparr>"

definition push_world :: world where
  "push_world = git_fails
     \<lparr> environ := [ascii ''GITHUB_EVENT_NAME'' \<mapsto> ascii ''push'',
                    ascii ''GITHUB_BASE_REF'' \<mapsto> ascii ''main'',
                    ascii ''GITHUB_EVENT_BEFORE'' \<mapsto> ascii ''abc'',
                    ascii ''GITHUB_SHA'' \<mapsto> ascii ''def''] \<rparr>"

definition first_push_world :: world where
  "first_push_world = git_fails
     \<lparr> environ := [ascii ''GITHUB_EVENT_NAME'' \<mapsto> ascii ''push'',
                    ascii ''GITHUB_EVENT_BEFORE'' \<mapsto> null_sha,
                    ascii ''GITHUB_SHA'' \<mapsto> ascii ''def''] \<rparr>"



section \<open>Facts about the string operations\<close>

lemma ascii_Nil: "ascii [] = []"
  by (simp add: ascii_def)

lemma length_ascii: "length (ascii s) = length s"
  by (simp add: ascii_def)

lemma lstrip_unchanged: "s \<noteq> [] \<Longrightarrow> \<not> isspace (hd s) \<Longrightarrow> lstrip s = s"
  by (cases s) (simp_all add: lstrip_def)

lemma rstrip_unchanged: "s \<noteq> [] \<Longrightarrow> \<not> isspace (last s) \<Longrightarrow> rstrip s = s"
  by (cases s rule: rev_cases) (simp_all add: rstrip_def)

lemma strip_unchanged:
  "s \<noteq> [] \<Longrightarrow> \<not> isspace (hd s) \<Longrightarrow> \<not> isspace (last s) \<Longrightarrow> strip s = s"
  by (simp add: strip_def lstrip_unchanged rstrip_unchanged)

lemma lstrip_indent: "isspace c \<Longrightarrow> lstrip (replicate n c @ s) = lstrip s"
  by (induction n) (simp_all add: lstrip_def)


lemma decimal_value_snoc: "decimal_value (s @ [c]) = 10 * decimal_value s + (c - 48)"
  by (simp add: decimal_value_def)

lemma decimal_value_str_of_nat: "decimal_value (str_of_nat n) = n"
proof (induction n rule: str_of_nat.induct)
  case (1 n)
  show ?case
  proof (cases "n < 10")
    case True
    then show ?thesis
      by (simp add: str_of_nat.simps [of n] decimal_value_def)
  next
    case False
    with 1 have "decimal_value (str_of_nat (n div 10)) = n div 10"
      by simp
    with False show ?thesis
      by (simp add: str_of_nat.simps [of n] decimal_value_snoc)
  qed
qed

lemma digits_str_of_nat: "list_all is_digit (str_of_nat n)"
proof (induction n rule: str_of_nat.induct)
  case (1 n)
  show ?case
  proof (cases "n < 10")
    case True
    then show ?thesis
      by (simp add: str_of_nat.simps [of n] is_digit_def)
  next
    case False
    have "n mod 10 < 10" by simp
    then have "is_digit (48 + n mod 10)"
      unfolding is_digit_def by linarith
    with 1 False show ?thesis
      by (simp add: str_of_nat.simps [of n])
  qed
qed

lemma str_of_nat_not_empty: "str_of_nat n \<noteq> []"
  by (simp add: str_of_nat.simps [of n])

section \<open>The pattern\<close>

lemma search_range_iff:
  "search (CharRange lo hi) s \<longleftrightarrow> (\<exists>c\<in>set s. lo \<le> c \<and> c \<le> hi)"
  by (induction s) auto

lemma search_cyrillic_iff:
  "search CYRILLIC_PATTERN s \<longleftrightarrow> (\<exists>c\<in>set s. 1024 \<le> c \<and> c \<le> 1279)"
  by (simp add: CYRILLIC_PATTERN_def search_range_iff)

section \<open>The iterations as list operations\<close>

lemma scan_lines_enumerate:
  "scan_lines p i lines acc =
     acc @ map (\<lambda>(k, line). format_violation p k (make_preview line))
             (filter (\<lambda>(k, line). search CYRILLIC_PATTERN line) (enumerate i lines))"
  by (induction lines arbitrary: i acc) simp_all

lemma enumerate_from_one:
  "enumerate (Suc 0) xs = map (\<lambda>k. (k, xs ! (k - Suc 0))) [Suc 0..<Suc (length xs)]"
  by (rule nth_equalityI) (simp_all add: nth_enumerate_eq del: upt_Suc)

lemma scan_lines_index:
  "scan_lines p 1 lines [] =
     map (\<lambda>k. format_violation p k (make_preview (lines ! (k - 1))))
       (filter (\<lambda>k. search CYRILLIC_PATTERN (lines ! (k - 1))) [1..<Suc (length lines)])"
  by (simp add: scan_lines_enumerate enumerate_from_one filter_map comp_def del: upt_Suc)

lemma length_filter_enumerate:
  "length (filter (\<lambda>(k, line). P line) (enumerate i xs)) = length (filter P xs)"
  by (induction xs arbitrary: i) simp_all

lemma length_scan_lines:
  "length (scan_lines p i lines []) = length (filter (search CYRILLIC_PATTERN) lines)"
  by (simp add: scan_lines_enumerate length_filter_enumerate)

lemma scan_lines_member:
  assumes "v \<in> set (scan_lines p i lines [])"
  shows "\<exists>k line. line \<in> set lines \<and> search CYRILLIC_PATTERN line
            \<and> v = format_violation p k (make_preview line)"
proof -
  from assms obtain k line where kl: "(k, line) \<in> set (enumerate i lines)"
    and s: "search CYRILLIC_PATTERN line"
    and v: "v = format_violation p k (make_preview line)"
    by (auto simp: scan_lines_enumerate)
  from kl have "line \<in> set lines"
    by (auto simp: in_set_enumerate_eq)
  with s v show ?thesis by blast
qed

lemma scan_all_concat: "scan_all w files acc = acc @ concat (map (scan_file w) files)"
  by (induction files arbitrary: acc) simp_all

lemma print_violations_map:
  "print_violations vs out = out @ map (\<lambda>v. ascii ''- '' @ v) vs"
  by (induction vs arbitrary: out) simp_all

lemma missing_or_dir_False:
  "missing_or_dir w p = Inr False \<longleftrightarrow> path_exists w p = Inr True \<and> path_is_dir w p = Inr False"
  by (auto simp: missing_or_dir_def split: sum.splits)


lemma collect_changed_filter:
  "collect_changed w raws acc = Inr ps \<Longrightarrow>
     ps = acc @ map Path (filter (\<lambda>raw. raw \<noteq> [] \<and> path_exists w (Path raw) = Inr True
                                    \<and> path_is_dir w (Path raw) = Inr False
                                    \<and> str_lower w (suffix (Path raw)) \<in> TEXT_EXTENSIONS) raws)"
proof (induction raws arbitrary: acc)
  case Nil
  then show ?case by simp
next
  case (Cons raw rest)
  let ?keep = "raw \<noteq> [] \<and> path_exists w (Path raw) = Inr True
      \<and> path_is_dir w (Path raw) = Inr False
      \<and> str_lower w (suffix (Path raw)) \<in> TEXT_EXTENSIONS"
  have step: "collect_changed w rest (if ?keep then acc @ [Path raw] else acc) = Inr ps"
  proof (cases "raw = []")
    case True
    with Cons.prems show ?thesis by simp
  next
    case False
    with Cons.prems obtain skip where m: "missing_or_dir w (Path raw) = Inr skip"
      by (auto simp: Let_def split: sum.splits)
    have "skip \<longleftrightarrow> \<not> (path_exists w (Path raw) = Inr True \<and> path_is_dir w (Path raw) = Inr False)"
      using m missing_or_dir_False [of w "Path raw"] by auto
    with Cons.prems False m show ?thesis
      by (auto simp: Let_def split: if_splits)
  qed
  from Cons.IH [OF step] show ?case
    by (simp split: if_splits)
qed



section \<open>The preview\<close>

lemma length_make_preview: "length (make_preview line) \<le> 180"
  by (simp add: make_preview_def Let_def length_ascii)

lemma make_preview_short: "length (strip line) \<le> 180 \<Longrightarrow> make_preview line = strip line"
  by (simp add: make_preview_def Let_def)

lemma make_preview_long:
  "180 < length (strip line) \<Longrightarrow> make_preview line = take 177 (strip line) @ ascii ''...''"
  by (simp add: make_preview_def Let_def)

section \<open>No line boundary inside a reported violation\<close>

lemma splitlines_from_no_linebreak:
  "\<forall>c\<in>set cur. \<not> is_linebreak c \<Longrightarrow>
     \<forall>l\<in>set (splitlines_from cur s). \<forall>c\<in>set l. \<not> is_linebreak c"
proof (induction cur s rule: splitlines_from.induct)
  case (1 cur)
  then show ?case by simp
next
  case (2 cur c)
  then show ?case by simp
next
  case (3 cur c d cs)
  have empty: "\<forall>c\<in>set ([]::pystr). \<not> is_linebreak c"
    by simp
  show ?case
  proof (cases "c = 13 \<and> d = 10")
    case True
    with "3.IH"(1) [OF True empty] "3.prems" show ?thesis
      by simp
  next
    case crlf: False
    show ?thesis
    proof (cases "is_linebreak c")
      case True
      with "3.IH"(2) [OF crlf True empty] "3.prems" crlf show ?thesis
        by auto
    next
      case False
      with "3.prems" have "\<forall>x\<in>set (cur @ [c]). \<not> is_linebreak x"
        by simp
      from "3.IH"(3) [OF crlf False this] crlf False show ?thesis
        by auto
    qed
  qed
qed

lemma splitlines_no_linebreak:
  "l \<in> set (splitlines s) \<Longrightarrow> c \<in> set l \<Longrightarrow> \<not> is_linebreak c"
  using splitlines_from_no_linebreak [of "[]" s] by (simp add: splitlines_def)

lemma set_strip: "set (strip s) \<subseteq> set s"
proof -
  have "set (rstrip t) \<subseteq> set t" for t
    using set_dropWhileD [of _ isspace "rev t"] by (auto simp: rstrip_def)
  moreover have "set (lstrip s) \<subseteq> set s"
    by (auto simp: lstrip_def dest: set_dropWhileD)
  ultimately show ?thesis
    unfolding strip_def by blast
qed

lemma set_make_preview: "set (make_preview line) \<subseteq> set line \<union> {46}"
proof -
  have "set (take 177 (strip line)) \<subseteq> set line"
    using set_take_subset [of 177 "strip line"] set_strip [of line] by blast
  then show ?thesis
    using set_strip [of line] by (auto simp: make_preview_def Let_def ascii_def)
qed

lemma set_str_of_nat: "set (str_of_nat n) \<subseteq> {48..57}"
proof (induction n rule: str_of_nat.induct)
  case (1 n)
  show ?case
  proof (cases "n < 10")
    case True
    then show ?thesis by (simp add: str_of_nat.simps [of n])
  next
    case False
    have "n mod 10 < 10" by simp
    then have "48 + n mod 10 \<in> {48..57}" by auto
    with 1 False show ?thesis by (simp add: str_of_nat.simps [of n])
  qed
qed

lemma set_split_from:
  "x \<in> set (split_from sep cur s) \<Longrightarrow> set x \<subseteq> set cur \<union> set s"
  by (induction sep cur s arbitrary: x rule: split_from.induct) (auto split: if_splits)

lemma set_join: "set (join sep xs) \<subseteq> set sep \<union> \<Union> (set ` set xs)"
  by (induction sep xs rule: join.induct) auto

lemma set_path_str: "set (path_str (Path raw)) \<subseteq> set raw \<union> {46, 47}"
proof -
  obtain rt rel where sr: "splitroot raw = (rt, rel)"
    by (cases "splitroot raw")
  then have rt: "set rt \<subseteq> set raw \<union> {47}" and rel: "set rel \<subseteq> set raw"
    by (auto simp: splitroot_def ascii_def split: if_splits dest: in_set_takeD in_set_dropD)
  let ?ps = "filter (\<lambda>x. x \<noteq> [] \<and> x \<noteq> ascii ''.'') (split 47 rel)"
  have "\<Union> (set ` set ?ps) \<subseteq> set rel"
    using set_split_from [of _ 47 "[]" rel] by (auto simp: split_def)
  with set_join [of "ascii ''/''" ?ps] rel
  have "set (join (ascii ''/'') ?ps) \<subseteq> set raw \<union> {47}"
    by (auto simp: ascii_def)
  with rt sr show ?thesis
    by (auto simp: path_str_def Path_def Let_def ascii_def)
qed

lemma format_violation_no_linebreak:
  assumes "\<forall>c\<in>set raw. \<not> is_linebreak c" and "\<forall>c\<in>set line. \<not> is_linebreak c"
  shows "\<forall>c\<in>set (format_violation (Path raw) k (make_preview line)). \<not> is_linebreak c"
proof -
  have "\<forall>c\<in>{46, 47, 58, 32} \<union> {48..57}. \<not> is_linebreak c"
    by (auto simp: is_linebreak_def)
  with assms set_path_str [of raw] set_make_preview [of line] set_str_of_nat [of k]
  show ?thesis
    unfolding format_violation_def ascii_def by (auto simp: subset_iff)
qed

lemma list_changed_files_raw:
  assumes "list_changed_files w r = Inr files" and "p \<in> set files"
  shows "\<exists>raw. p = Path raw \<and> (\<forall>c\<in>set raw. \<not> is_linebreak c)"
proof -
  from assms obtain listing
    where "collect_changed w (splitlines listing) [] = Inr files"
    by (auto simp: list_changed_files_def split: sum.splits if_splits)
  from collect_changed_filter [OF this] assms(2)
  obtain raw where "p = Path raw" and "raw \<in> set (splitlines listing)"
    by auto
  then show ?thesis
    using splitlines_no_linebreak by blast
qed

lemma scan_file_no_linebreak:
  assumes "v \<in> set (scan_file w (Path raw))" and "\<forall>c\<in>set raw. \<not> is_linebreak c"
  shows "\<forall>c\<in>set v. \<not> is_linebreak c"
proof -
  from assms(1) obtain content
    where "v \<in> set (scan_lines (Path raw) 1 (splitlines content) [])"
    by (auto simp: scan_file_def split: sum.splits os_error.splits)
  from scan_lines_member [OF this] obtain k line
    where "line \<in> set (splitlines content)"
      and v: "v = format_violation (Path raw) k (make_preview line)"
    by blast
  then have "\<forall>c\<in>set line. \<not> is_linebreak c"
    using splitlines_no_linebreak by blast
  with assms(2) show ?thesis
    unfolding v by (rule format_violation_no_linebreak)
qed

lemma messages_no_linebreak:
  "\<forall>c\<in>set msg_nothing. \<not> is_linebreak c" "\<forall>c\<in>set msg_header. \<not> is_linebreak c"
  "\<forall>c\<in>set msg_advice. \<not> is_linebreak c" "\<forall>c\<in>set msg_clean. \<not> is_linebreak c"
  by (simp_all add: msg_nothing_def msg_header_def msg_advice_def msg_clean_def ascii_def
      is_linebreak_def)

section \<open>main, given the list of changed files\<close>

lemma main_of_files:
  assumes "list_changed_files w (resolve_diff_range w) = Inr files"
  shows "main w =
           (if files = [] then ([msg_nothing], Inr 0)
            else if concat (map (scan_file w) files) \<noteq> []
              then (msg_header # map (\<lambda>v. ascii ''- '' @ v) (concat (map (scan_file w) files))
                      @ [msg_advice], Inr 1)
            else ([msg_clean], Inr 0))"
  using assms by (simp add: main_def Let_def scan_all_concat print_violations_map)

lemma main_of_git_failure:
  assumes "list_changed_files w (resolve_diff_range w) = Inl e"
  shows "main w = ([], Inl e)"
  using assms by (simp add: main_def)

section \<open>The example worlds, evaluated\<close>

lemmas str_defs = ascii_def isspace_def lstrip_def rstrip_def strip_def is_linebreak_def
  splitlines_def split_def

lemmas path_defs = splitroot_def Path_def path_str_def name_def rfind_dot_def suffix_def

lemmas world_defs = example_world_def lower_ascii_def cyrillic_line_def b_py_text_def

lemmas script_defs = getenv_def pull_request_range_def resolve_diff_range_def null_sha_def
  run_git_command_def missing_or_dir_def list_changed_files_def TEXT_EXTENSIONS_def
  scan_file_def CYRILLIC_PATTERN_def make_preview_def format_violation_def str_of_nat.simps

lemma scenario_a_files:
  "list_changed_files scenario_a (resolve_diff_range scenario_a)
     = Inr [Path (ascii ''a.md''), Path (ascii ''b.py'')]"
  by (simp add: scenario_a_def script_defs str_defs path_defs world_defs)

lemma scenario_a_scan_a_md: "scan_file scenario_a (Path (ascii ''a.md'')) = []"
  by (simp add: scenario_a_def script_defs str_defs path_defs world_defs)

lemma scenario_a_scan_b_py:
  "scan_file scenario_a (Path (ascii ''b.py'')) = [ascii ''b.py:3: '' @ cyrillic_line]"
  by (simp add: scenario_a_def script_defs str_defs path_defs world_defs)

lemma git_fails_files:
  "list_changed_files git_fails (resolve_diff_range git_fails) = Inl (CalledProcessError 128)"
  by (simp add: git_fails_def script_defs str_defs world_defs)

lemma strip_indented_line: "strip indented_line = [1071]"
  by (simp add: indented_line_def strip_def lstrip_indent isspace_def)
     (simp add: lstrip_def rstrip_def isspace_def)

lemma strip_long_line: "strip long_line = long_line"
  by (rule strip_unchanged) (simp_all add: long_line_def isspace_def)

lemma strip_exact_line: "strip exact_line = exact_line"
  by (rule strip_unchanged) (simp_all add: exact_line_def isspace_def)

lemma pr_world_files:
  "list_changed_files pr_world (resolve_diff_range pr_world) = Inl (CalledProcessError 128)"
  by (simp add: pr_world_def git_fails_def script_defs str_defs world_defs)

lemma nothing_changed_files:
  "list_changed_files nothing_changed (resolve_diff_range nothing_changed) = Inr []"
  by (simp add: nothing_changed_def script_defs str_defs path_defs world_defs)

lemma all_clean_files:
  "list_changed_files all_clean (resolve_diff_range all_clean) = Inr [Path (ascii ''a.md'')]"
  by (simp add: all_clean_def script_defs str_defs path_defs world_defs)

lemma all_clean_scan: "scan_file all_clean (Path (ascii ''a.md'')) = []"
  by (simp add: all_clean_def script_defs str_defs path_defs world_defs)






section \<open>The Line Scanner\<close>

text \<open>
  C1. When \<open>read_text\<close> gives the decoded text of a file, \<open>scan_file\<close> returns, in line
  order, one violation for each line number \<open>k\<close> (counted from 1 over the lines of
  \<open>splitlines\<close>) whose line has a character in U+0400..U+04FF, and nothing else. The
  violation is the path, a colon, the decimal digits of \<open>k\<close>, a colon and a space, and
  the preview: the stripped line, cut to 177 characters and \<open>...\<close> when the stripped line
  is longer than 180. The digits are a non-empty string of decimal digits whose value is
  \<open>k\<close>. There are as many violations as offending lines, and none when no line has such
  a character.
\<close>

theorem scan_file_line_violations:
  assumes "read_text w p = Inr text"
  shows "scan_file w p =
           map (\<lambda>k. path_str p @ ascii '':'' @ str_of_nat k @ ascii '': '' @
                      (let t = strip (splitlines text ! (k - 1))
                       in if length t \<le> 180 then t else take 177 t @ ascii ''...''))
             (filter (\<lambda>k. \<exists>c\<in>set (splitlines text ! (k - 1)). 0x0400 \<le> c \<and> c \<le> 0x04FF)
                [1..<Suc (length (splitlines text))])
         \<and> (\<forall>k. str_of_nat k \<noteq> [] \<and> list_all is_digit (str_of_nat k)
                 \<and> decimal_value (str_of_nat k) = k)
         \<and> length (scan_file w p) =
             length (filter (\<lambda>line. \<exists>c\<in>set line. 0x0400 \<le> c \<and> c \<le> 0x04FF) (splitlines text))
         \<and> ((\<forall>line\<in>set (splitlines text). \<forall>c\<in>set line. c < 0x0400 \<or> 0x04FF < c)
              \<longrightarrow> scan_file w p = [])"
proof -
  let ?lines = "splitlines text"
  have body: "scan_file w p = scan_lines p 1 ?lines []"
    using assms by (simp add: scan_file_def)
  have shape: "format_violation p k (make_preview line) =
      path_str p @ ascii '':'' @ str_of_nat k @ ascii '': '' @
      (let t = strip line in if length t \<le> 180 then t else take 177 t @ ascii ''...'')" for k line
    by (simp add: format_violation_def make_preview_def Let_def)
  have each: "scan_file w p =
      map (\<lambda>k. path_str p @ ascii '':'' @ str_of_nat k @ ascii '': '' @
              (let t = strip (?lines ! (k - 1))
               in if length t \<le> 180 then t else take 177 t @ ascii ''...''))
        (filter (\<lambda>k. \<exists>c\<in>set (?lines ! (k - 1)). 0x0400 \<le> c \<and> c \<le> 0x04FF)
           [1..<Suc (length ?lines)])"
    unfolding body scan_lines_index search_cyrillic_iff shape ..
  have number: "\<forall>k. str_of_nat k \<noteq> [] \<and> list_all is_digit (str_of_nat k)
      \<and> decimal_value (str_of_nat k) = k"
    by (simp add: str_of_nat_not_empty digits_str_of_nat decimal_value_str_of_nat)
  have count: "length (scan_file w p) =
      length (filter (\<lambda>line. \<exists>c\<in>set line. 0x0400 \<le> c \<and> c \<le> 0x04FF) ?lines)"
    unfolding body length_scan_lines
    by (rule arg_cong [where f = length], rule filter_cong) (simp_all add: search_cyrillic_iff)
  have none: "scan_file w p = []"
    if clean: "\<forall>line\<in>set ?lines. \<forall>c\<in>set line. c < 0x0400 \<or> 0x04FF < c"
  proof -
    from clean have "filter (\<lambda>line. \<exists>c\<in>set line. 0x0400 \<le> c \<and> c \<le> 0x04FF) ?lines = []"
      by (fastforce simp: filter_empty_conv)
    with count show ?thesis by simp
  qed
  from each number count none show ?thesis by blast
qed

theorem scan_file_line_violations_witness:
  "read_text scenario_a (Path (ascii ''b.py'')) = Inr b_py_text
   \<and> splitlines b_py_text = [ascii ''import os'', [], cyrillic_line]
   \<and> scan_file scenario_a (Path (ascii ''b.py'')) = [ascii ''b.py:3: '' @ cyrillic_line]
   \<and> str_of_nat 3 = ascii ''3'' \<and> decimal_value (str_of_nat 3) = 3
   \<and> length (scan_file scenario_a (Path (ascii ''b.py''))) = 1"
proof -
  have r: "read_text scenario_a (Path (ascii ''b.py'')) = Inr b_py_text"
    by (simp add: scenario_a_def str_defs path_defs world_defs)
  have l: "splitlines b_py_text = [ascii ''import os'', [], cyrillic_line]"
    by (simp add: str_defs world_defs)
  have ks: "[1..<Suc (length (splitlines b_py_text))] = [1, 2, 3]"
    unfolding l by (simp add: upt_rec)
  have s: "strip cyrillic_line = cyrillic_line"
    by (rule strip_unchanged) (simp_all add: cyrillic_line_def ascii_def isspace_def)
  have c: "length cyrillic_line \<le> 180"
    by (simp add: cyrillic_line_def ascii_def)
  have n: "str_of_nat 3 = ascii ''3''"
    by (simp add: str_of_nat.simps ascii_def)
  have ps: "path_str (Path (ascii ''b.py'')) = ascii ''b.py''"
    by (simp add: str_defs path_defs)
  note t = scan_file_line_violations [OF r]
  from t have v: "scan_file scenario_a (Path (ascii ''b.py''))
          = [ascii ''b.py:3: '' @ cyrillic_line]"
    unfolding ks by (simp add: l s c n ps) (simp add: cyrillic_line_def ascii_def)
  from t have d: "decimal_value (str_of_nat 3) = 3"
    by blast
  from r l v n d show ?thesis by simp
qed

text \<open>
  C9. The pattern matches a line exactly when some character of it lies in the
  inclusive range U+0400..U+04FF, and the scanner reports a line exactly then. The two
  ends of the range match; U+03FF, U+0500 and every ASCII character do not.
\<close>

theorem cyrillic_range_exact:
  "(search CYRILLIC_PATTERN line \<longleftrightarrow> (\<exists>c\<in>set line. 0x0400 \<le> c \<and> c \<le> 0x04FF))
   \<and> (scan_lines p k [line] [] \<noteq> [] \<longleftrightarrow> (\<exists>c\<in>set line. 0x0400 \<le> c \<and> c \<le> 0x04FF))
   \<and> search CYRILLIC_PATTERN [0x0400] \<and> search CYRILLIC_PATTERN [0x04FF]
   \<and> \<not> search CYRILLIC_PATTERN [0x03FF] \<and> \<not> search CYRILLIC_PATTERN [0x0500]
   \<and> ((\<forall>c\<in>set line. c < 128) \<longrightarrow> scan_lines p k [line] [] = [])"
proof -
  have a: "search CYRILLIC_PATTERN line \<longleftrightarrow> (\<exists>c\<in>set line. 0x0400 \<le> c \<and> c \<le> 0x04FF)"
    by (simp add: search_cyrillic_iff)
  have b: "scan_lines p k [line] [] \<noteq> [] \<longleftrightarrow> search CYRILLIC_PATTERN line"
    by simp
  have ends: "search CYRILLIC_PATTERN [0x0400] \<and> search CYRILLIC_PATTERN [0x04FF]
      \<and> \<not> search CYRILLIC_PATTERN [0x03FF] \<and> \<not> search CYRILLIC_PATTERN [0x0500]"
    by (simp add: CYRILLIC_PATTERN_def)
  have d: "scan_lines p k [line] [] = []" if "\<forall>c\<in>set line. c < 128"
  proof -
    from that have "\<not> search CYRILLIC_PATTERN line"
      by (fastforce simp: search_cyrillic_iff)
    then show ?thesis by simp
  qed
  from a b ends d show ?thesis by blast
qed

theorem cyrillic_range_exact_witness:
  "list_all (\<lambda>c. c < 128) (ascii ''import os'')
   \<and> scan_lines (Path (ascii ''b.py'')) 1 [ascii ''import os''] [] = []
   \<and> (\<exists>c\<in>set cyrillic_line. 0x0400 \<le> c \<and> c \<le> 0x04FF)
   \<and> scan_lines (Path (ascii ''b.py'')) 3 [cyrillic_line] [] \<noteq> []"
proof -
  have h: "\<forall>c\<in>set (ascii ''import os''). c < 128"
    by (simp add: ascii_def)
  have e: "\<exists>c\<in>set cyrillic_line. 0x0400 \<le> c \<and> c \<le> 0x04FF"
    by (simp add: cyrillic_line_def)
  from cyrillic_range_exact [of "ascii ''import os''" "Path (ascii ''b.py'')" 1] h
  have 1: "scan_lines (Path (ascii ''b.py'')) 1 [ascii ''import os''] [] = []"
    by blast
  from cyrillic_range_exact [of cyrillic_line "Path (ascii ''b.py'')" 3] e
  have 2: "scan_lines (Path (ascii ''b.py'')) 3 [cyrillic_line] [] \<noteq> []"
    by blast
  from h have "list_all (\<lambda>c. c < 128) (ascii ''import os'')"
    by (simp add: list_all_iff)
  with e 1 2 show ?thesis by blast
qed

text \<open>
  C10. A preview is never longer than 180 characters. A stripped line of at most 180
  characters, so one of exactly 180 too, is the preview unchanged; a longer one becomes
  its first 177 characters followed by \<open>...\<close>. Every violation the scanner returns
  carries such a preview of one of the lines.
\<close>

theorem preview_length_bound:
  "length (make_preview line) \<le> 180
   \<and> (length (strip line) \<le> 180 \<longrightarrow> make_preview line = strip line)
   \<and> (length (strip line) = 180 \<longrightarrow> make_preview line = strip line)
   \<and> (180 < length (strip line) \<longrightarrow> make_preview line = take 177 (strip line) @ ascii ''...'')
   \<and> (\<forall>v\<in>set (scan_lines p i lines []).
         \<exists>k l. l \<in> set lines \<and> v = format_violation p k (make_preview l)
               \<and> length (make_preview l) \<le> 180)"
proof -
  have "\<exists>k l. l \<in> set lines \<and> v = format_violation p k (make_preview l)
               \<and> length (make_preview l) \<le> 180"
    if "v \<in> set (scan_lines p i lines [])" for v
    using scan_lines_member [OF that] length_make_preview by blast
  then show ?thesis
    using length_make_preview [of line] make_preview_short [of line] make_preview_long [of line]
    by auto
qed

theorem preview_length_bound_witness:
  "length (strip exact_line) = 180 \<and> make_preview exact_line = exact_line
   \<and> 180 < length (strip long_line)
   \<and> make_preview long_line = replicate 177 0x042F @ ascii ''...''
   \<and> length (make_preview long_line) = 180"
proof -
  have e: "length (strip exact_line) = 180"
    by (simp add: strip_exact_line) (simp add: exact_line_def)
  have l: "180 < length (strip long_line)"
    by (simp add: strip_long_line) (simp add: long_line_def)
  from preview_length_bound [of exact_line] e
  have 1: "make_preview exact_line = exact_line"
    by (simp add: strip_exact_line)
  from preview_length_bound [of long_line] l
  have 2: "make_preview long_line = replicate 177 0x042F @ ascii ''...''"
    by (simp add: strip_long_line) (simp add: long_line_def)
  have 3: "length (make_preview long_line) = 180"
    unfolding 2 by (simp add: ascii_def)
  from e l 1 2 3 show ?thesis by blast
qed

text \<open>
  C2. The claim speaks of every line longer than 180 characters. The length that is
  tested is that of the stripped line: a line of 200 spaces and one Cyrillic letter is
  longer than 180 and is reported with the one-character preview.
\<close>

theorem indented_line_preview_short:
  "180 < length indented_line \<and> search CYRILLIC_PATTERN indented_line
   \<and> scan_lines (Path (ascii ''b.py'')) 1 [indented_line] []
       = [format_violation (Path (ascii ''b.py'')) 1 [0x042F]]
   \<and> length (make_preview indented_line) = 1
   \<and> drop (length (make_preview indented_line) - 3) (make_preview indented_line) \<noteq> ascii ''...''"
proof -
  have len: "180 < length indented_line"
    by (simp add: indented_line_def)
  have hit: "search CYRILLIC_PATTERN indented_line"
    by (simp add: search_cyrillic_iff indented_line_def)
  have pv: "make_preview indented_line = [0x042F]"
    by (simp add: make_preview_def strip_indented_line)
  have dots: "[1071::nat] \<noteq> ascii ''...''"
    by (simp add: ascii_def)
  from len hit pv dots show ?thesis by simp
qed

text \<open>
  C2, amended. For every line whose stripped text is longer than 180 characters and
  that has a Cyrillic character anywhere in it, the scanner reports the line with a
  preview of exactly 180 characters: the first 177 of the stripped text, then \<open>...\<close>.
\<close>

theorem long_stripped_line_preview:
  assumes "180 < length (strip line)"
    and "\<exists>c\<in>set line. 0x0400 \<le> c \<and> c \<le> 0x04FF"
  shows "scan_lines p k [line] [] = [format_violation p k (make_preview line)]
         \<and> length (make_preview line) = 180
         \<and> drop 177 (make_preview line) = ascii ''...''
         \<and> take 177 (make_preview line) = take 177 (strip line)"
proof -
  from assms(2) have "search CYRILLIC_PATTERN line"
    by (simp add: search_cyrillic_iff)
  then have 1: "scan_lines p k [line] [] = [format_violation p k (make_preview line)]"
    by simp
  from assms(1) have 2: "make_preview line = take 177 (strip line) @ ascii ''...''"
    by (rule make_preview_long)
  from assms(1) have 3: "length (take 177 (strip line)) = 177"
    by simp
  from 1 2 3 show ?thesis
    by (simp add: length_ascii)
qed

theorem long_stripped_line_preview_witness:
  "180 < length (strip long_line) \<and> (\<exists>c\<in>set long_line. 0x0400 \<le> c \<and> c \<le> 0x04FF)
   \<and> length (make_preview long_line) = 180
   \<and> drop 177 (make_preview long_line) = ascii ''...''"
proof -
  have l: "180 < length (strip long_line)"
    by (simp add: strip_long_line) (simp add: long_line_def)
  have c: "\<exists>c\<in>set long_line. 0x0400 \<le> c \<and> c \<le> 0x04FF"
    by (simp add: long_line_def)
  from long_stripped_line_preview [OF l c] l c show ?thesis by blast
qed

section \<open>The Range Resolver\<close>

text \<open>
  C4. With an absent variable read as the empty string, \<open>resolve_diff_range\<close> returns
  \<open>origin/<base>...HEAD\<close> when the event is \<open>pull_request\<close> and the base branch is not
  empty; otherwise \<open><before>...<current>\<close> when the "before" reference is not empty and not
  the forty-zero null commit and the current revision is not empty; otherwise
  \<open>HEAD~1...HEAD\<close>. The result is never empty, and the function has no failing branch:
  with no variable set at all it returns the fallback.
\<close>

theorem resolve_diff_range_priority:
  "(let env = (\<lambda>key. case environ w key of None \<Rightarrow> [] | Some v \<Rightarrow> v);
        event_name = env (ascii ''GITHUB_EVENT_NAME'');
        base_ref = env (ascii ''GITHUB_BASE_REF'');
        before_sha = env (ascii ''GITHUB_EVENT_BEFORE'');
        github_sha = env (ascii ''GITHUB_SHA'')
    in resolve_diff_range w =
         (if event_name = ascii ''pull_request'' \<and> base_ref \<noteq> []
            then ascii ''origin/'' @ base_ref @ ascii ''...HEAD''
          else if before_sha \<noteq> []
                  \<and> before_sha \<noteq> ascii ''0000000000000000000000000000000000000000''
                  \<and> github_sha \<noteq> []
            then before_sha @ ascii ''...'' @ github_sha
          else ascii ''HEAD~1...HEAD''))
   \<and> resolve_diff_range w \<noteq> []
   \<and> (environ w = Map.empty \<longrightarrow> resolve_diff_range w = ascii ''HEAD~1...HEAD'')"
proof -
  have dots: "ascii ''...HEAD'' \<noteq> []" "ascii ''...'' \<noteq> []" "ascii ''HEAD~1...HEAD'' \<noteq> []"
    by (simp_all add: ascii_def)
  have 1: "let env = (\<lambda>key. case environ w key of None \<Rightarrow> [] | Some v \<Rightarrow> v);
        event_name = env (ascii ''GITHUB_EVENT_NAME'');
        base_ref = env (ascii ''GITHUB_BASE_REF'');
        before_sha = env (ascii ''GITHUB_EVENT_BEFORE'');
        github_sha = env (ascii ''GITHUB_SHA'')
    in resolve_diff_range w =
         (if event_name = ascii ''pull_request'' \<and> base_ref \<noteq> []
            then ascii ''origin/'' @ base_ref @ ascii ''...HEAD''
          else if before_sha \<noteq> []
                  \<and> before_sha \<noteq> ascii ''0000000000000000000000000000000000000000''
                  \<and> github_sha \<noteq> []
            then before_sha @ ascii ''...'' @ github_sha
          else ascii ''HEAD~1...HEAD'')"
    by (simp add: resolve_diff_range_def pull_request_range_def getenv_def null_sha_def Let_def)
  have 2: "resolve_diff_range w \<noteq> []"
    using dots
    by (simp add: resolve_diff_range_def pull_request_range_def Let_def split: option.splits)
  have 3: "resolve_diff_range w = ascii ''HEAD~1...HEAD''" if "environ w = Map.empty"
    using that
    by (simp add: resolve_diff_range_def pull_request_range_def getenv_def Let_def ascii_def)
  from 1 2 3 show ?thesis by blast
qed

theorem resolve_diff_range_priority_witness:
  "resolve_diff_range pr_world = ascii ''origin/main...HEAD''
   \<and> resolve_diff_range push_world = ascii ''abc...def''
   \<and> resolve_diff_range first_push_world = ascii ''HEAD~1...HEAD''
   \<and> environ git_fails = Map.empty
   \<and> resolve_diff_range git_fails = ascii ''HEAD~1...HEAD''"
proof -
  have e: "environ git_fails = Map.empty"
    by (simp add: git_fails_def example_world_def)
  from resolve_diff_range_priority [of git_fails] e
  have 4: "resolve_diff_range git_fails = ascii ''HEAD~1...HEAD''"
    by blast
  from resolve_diff_range_priority [of pr_world]
  have 1: "resolve_diff_range pr_world = ascii ''origin/main...HEAD''"
    by (simp add: pr_world_def ascii_def Let_def)
  from resolve_diff_range_priority [of push_world]
  have 2: "resolve_diff_range push_world = ascii ''abc...def''"
    by (simp add: push_world_def ascii_def Let_def)
  from resolve_diff_range_priority [of first_push_world]
  have 3: "resolve_diff_range first_push_world = ascii ''HEAD~1...HEAD''"
    by (simp add: first_push_world_def null_sha_def ascii_def Let_def)
  from 1 2 3 4 e show ?thesis by blast
qed

section \<open>The Change Lister\<close>




text \<open>
  C8. When the \<open>git diff --name-only\<close> subprocess ends with a non-zero return code,
  \<open>run_git_command\<close> raises \<open>CalledProcessError\<close>, \<open>list_changed_files\<close> lets it through, and
  so does \<open>main\<close>: nothing is printed, no second attempt is made, and the process ends
  with status 1.
\<close>

theorem git_failure_propagates:
  assumes "subprocess_run w [ascii ''git'', ascii ''diff'', ascii ''--name-only'', r] = (rc, out)"
    and "rc \<noteq> 0"
  shows "run_git_command w [ascii ''diff'', ascii ''--name-only'', r] = Inl (CalledProcessError rc)
         \<and> list_changed_files w r = Inl (CalledProcessError rc)
         \<and> (r = resolve_diff_range w \<longrightarrow>
               main w = ([], Inl (CalledProcessError rc)) \<and> exit_status w = 1 \<and> exit_status w \<noteq> 0)"
proof -
  from assms
  have 1: "run_git_command w [ascii ''diff'', ascii ''--name-only'', r] = Inl (CalledProcessError rc)"
    by (simp add: run_git_command_def)
  then have 2: "list_changed_files w r = Inl (CalledProcessError rc)"
    by (simp add: list_changed_files_def)
  have 3: "main w = ([], Inl (CalledProcessError rc)) \<and> exit_status w = 1 \<and> exit_status w \<noteq> 0"
    if "r = resolve_diff_range w"
    using 2 that by (simp add: main_of_git_failure exit_status_def)
  from 1 2 3 show ?thesis by blast
qed

theorem git_failure_propagates_witness:
  "subprocess_run pr_world
       [ascii ''git'', ascii ''diff'', ascii ''--name-only'', ascii ''origin/main...HEAD'']
     = (128, [])
   \<and> (128::int) \<noteq> 0
   \<and> ascii ''origin/main...HEAD'' = resolve_diff_range pr_world
   \<and> list_changed_files pr_world (ascii ''origin/main...HEAD'') = Inl (CalledProcessError 128)
   \<and> main pr_world = ([], Inl (CalledProcessError 128))
   \<and> exit_status pr_world = 1"
proof -
  have s: "subprocess_run pr_world
       [ascii ''git'', ascii ''diff'', ascii ''--name-only'', ascii ''origin/main...HEAD'']
     = (128, [])"
    by (simp add: pr_world_def git_fails_def example_world_def)
  have n: "(128::int) \<noteq> 0"
    by simp
  have r: "ascii ''origin/main...HEAD'' = resolve_diff_range pr_world"
    by (simp add: pr_world_def script_defs ascii_def)
  from git_failure_propagates [OF s n] r s n show ?thesis by blast
qed

section \<open>Unreadable files\<close>



section \<open>The Reporter\<close>

text \<open>
  C3. The claim gives the program three outcomes and makes status 1 equivalent to the
  existence of a violation. When \<open>git diff\<close> fails there is a fourth: the exception leaves
  \<open>main\<close>, neither message is printed, no file is scanned, and the status is 1.
\<close>

theorem git_failure_fourth_outcome:
  "list_changed_files git_fails (resolve_diff_range git_fails) = Inl (CalledProcessError 128)
   \<and> main git_fails = ([], Inl (CalledProcessError 128))
   \<and> fst (main git_fails) \<noteq> [msg_nothing]
   \<and> fst (main git_fails) \<noteq> [msg_clean]
   \<and> snd (main git_fails) \<noteq> Inr 0
   \<and> snd (main git_fails) \<noteq> Inr 1
   \<and> exit_status git_fails = 1"
proof -
  have m: "main git_fails = ([], Inl (CalledProcessError 128))"
    by (rule main_of_git_failure) (rule git_fails_files)
  then have "exit_status git_fails = 1"
    by (simp add: exit_status_def)
  with m git_fails_files show ?thesis by simp
qed

text \<open>
  C3, amended. Whenever \<open>list_changed_files\<close> returns its list, the result is one of
  three: with no file in the filtered list, \<open>No changed text files to scan.\<close> and status 0,
  whatever the files hold; with files and no violation,
  \<open>No Cyrillic characters detected in changed files.\<close> and status 0; with at least one
  violation, the report and status 1. The status is 1 exactly when a violation exists
  and 0 exactly when none does.
\<close>

theorem main_three_outcomes:
  assumes "list_changed_files w (resolve_diff_range w) = Inr files"
  shows "(files = [] \<longrightarrow> main w = ([msg_nothing], Inr 0))
         \<and> (files \<noteq> [] \<and> concat (map (scan_file w) files) = [] \<longrightarrow> main w = ([msg_clean], Inr 0))
         \<and> (concat (map (scan_file w) files) \<noteq> [] \<longrightarrow>
               snd (main w) = Inr 1 \<and> hd (fst (main w)) = msg_header)
         \<and> (exit_status w = 1 \<longleftrightarrow> concat (map (scan_file w) files) \<noteq> [])
         \<and> (exit_status w = 0 \<longleftrightarrow> concat (map (scan_file w) files) = [])
         \<and> msg_nothing \<noteq> msg_clean \<and> msg_nothing \<noteq> msg_header \<and> msg_clean \<noteq> msg_header"
proof -
  note m = main_of_files [OF assms]
  have 1: "main w = ([msg_nothing], Inr 0)" if "files = []"
    using m that by simp
  have 2: "main w = ([msg_clean], Inr 0)"
    if "files \<noteq> [] \<and> concat (map (scan_file w) files) = []"
    using m that by simp
  have 3: "snd (main w) = Inr 1 \<and> hd (fst (main w)) = msg_header"
    if "concat (map (scan_file w) files) \<noteq> []"
    using m that by auto
  have 4: "exit_status w = 1 \<longleftrightarrow> concat (map (scan_file w) files) \<noteq> []"
    using m by (auto simp: exit_status_def)
  have 5: "exit_status w = 0 \<longleftrightarrow> concat (map (scan_file w) files) = []"
    using m by (auto simp: exit_status_def)
  have 6: "msg_nothing \<noteq> msg_clean \<and> msg_nothing \<noteq> msg_header \<and> msg_clean \<noteq> msg_header"
    by (simp add: msg_nothing_def msg_clean_def msg_header_def ascii_def)
  from 1 2 3 4 5 6 show ?thesis by blast
qed

theorem main_three_outcomes_witness:
  "list_changed_files nothing_changed (resolve_diff_range nothing_changed) = Inr []
   \<and> main nothing_changed = ([msg_nothing], Inr 0)
   \<and> list_changed_files all_clean (resolve_diff_range all_clean) = Inr [Path (ascii ''a.md'')]
   \<and> main all_clean = ([msg_clean], Inr 0)
   \<and> list_changed_files scenario_a (resolve_diff_range scenario_a)
       = Inr [Path (ascii ''a.md''), Path (ascii ''b.py'')]
   \<and> snd (main scenario_a) = Inr 1
   \<and> exit_status scenario_a = 1 \<and> exit_status all_clean = 0 \<and> exit_status nothing_changed = 0"
proof -
  note n = main_three_outcomes [OF nothing_changed_files]
  note c = main_three_outcomes [OF all_clean_files]
  note a = main_three_outcomes [OF scenario_a_files]
  from n have 1: "main nothing_changed = ([msg_nothing], Inr 0)"
    by blast
  from n have 2: "exit_status nothing_changed = 0"
    by simp
  from c have 3: "main all_clean = ([msg_clean], Inr 0)"
    by (simp add: all_clean_scan)
  from c have 4: "exit_status all_clean = 0"
    by (simp add: all_clean_scan)
  from a have 5: "snd (main scenario_a) = Inr 1"
    by (simp add: scenario_a_scan_a_md scenario_a_scan_b_py)
  from a have 6: "exit_status scenario_a = 1"
    by (simp add: scenario_a_scan_a_md scenario_a_scan_b_py)
  from nothing_changed_files all_clean_files scenario_a_files 1 2 3 4 5 6
  show ?thesis by blast
qed

text \<open>
  C6. The claim gives each report line the form \<open><path>:<line number>: <preview>\<close>. The
  line printed is that text after a dash and a space: in scenario A the report line is
  \<open>- b.py:3: x = '\<close>U+042F\<open>'\<close>, not \<open>b.py:3: x = '\<close>U+042F\<open>'\<close>.
\<close>

theorem report_line_has_dash:
  "concat (map (scan_file scenario_a) [Path (ascii ''a.md''), Path (ascii ''b.py'')])
     = [format_violation (Path (ascii ''b.py'')) 3 cyrillic_line]
   \<and> format_violation (Path (ascii ''b.py'')) 3 cyrillic_line = ascii ''b.py:3: '' @ cyrillic_line
   \<and> main scenario_a = ([msg_header, ascii ''- b.py:3: '' @ cyrillic_line, msg_advice], Inr 1)
   \<and> fst (main scenario_a)
       \<noteq> [msg_header, format_violation (Path (ascii ''b.py'')) 3 cyrillic_line, msg_advice]"
proof -
  have f: "format_violation (Path (ascii ''b.py'')) 3 cyrillic_line
      = ascii ''b.py:3: '' @ cyrillic_line"
    by (simp add: format_violation_def str_of_nat.simps str_defs path_defs)
  have v: "concat (map (scan_file scenario_a) [Path (ascii ''a.md''), Path (ascii ''b.py'')])
      = [format_violation (Path (ascii ''b.py'')) 3 cyrillic_line]"
    by (simp add: scenario_a_scan_a_md scenario_a_scan_b_py f)
  have m: "main scenario_a
      = ([msg_header, ascii ''- b.py:3: '' @ cyrillic_line, msg_advice], Inr 1)"
    using main_of_files [OF scenario_a_files]
    by (simp add: scenario_a_scan_a_md scenario_a_scan_b_py) (simp add: ascii_def)
  have d: "ascii ''- b.py:3: '' @ cyrillic_line \<noteq> ascii ''b.py:3: '' @ cyrillic_line"
    by (simp add: ascii_def)
  from f v m d show ?thesis by simp
qed

text \<open>
  C6, amended. When one or more violations exist, the Reporter prints the header line,
  then one line per violation, in violation order, each a dash, a space and the
  violation \<open><path>:<line number>: <preview>\<close>, then the closing instructional line, and
  the exit status is 1. The violations are those of the files in list order and, within
  a file, of its offending lines in line order. No printed string holds a line boundary,
  so each is one line of the output.
\<close>

theorem report_lines:
  assumes "list_changed_files w (resolve_diff_range w) = Inr files"
    and "concat (map (scan_file w) files) \<noteq> []"
  shows "main w =
           (msg_header # map (\<lambda>v. ascii ''- '' @ v) (concat (map (scan_file w) files))
              @ [msg_advice], Inr 1)
         \<and> exit_status w = 1
         \<and> length (fst (main w)) = length (concat (map (scan_file w) files)) + 2
         \<and> (\<forall>p\<in>set files.
               scan_file w p =
                 (case read_text w p of
                    Inl e \<Rightarrow> []
                  | Inr text \<Rightarrow>
                      map (\<lambda>(k, line). path_str p @ ascii '':'' @ str_of_nat k @ ascii '': ''
                                          @ make_preview line)
                        (filter (\<lambda>(k, line). search CYRILLIC_PATTERN line)
                           (enumerate 1 (splitlines text)))))
         \<and> (\<forall>printed\<in>set (fst (main w)). \<forall>c\<in>set printed. \<not> is_linebreak c)"
proof -
  from assms(2) have ne: "files \<noteq> []"
    by auto
  from main_of_files [OF assms(1)] assms(2) ne
  have 1: "main w =
           (msg_header # map (\<lambda>v. ascii ''- '' @ v) (concat (map (scan_file w) files))
              @ [msg_advice], Inr 1)"
    by simp
  then have 2: "exit_status w = 1"
    by (simp add: exit_status_def)
  from 1 have 3: "length (fst (main w)) = length (concat (map (scan_file w) files)) + 2"
    by simp
  have 4: "scan_file w p =
      (case read_text w p of
         Inl e \<Rightarrow> []
       | Inr text \<Rightarrow>
           map (\<lambda>(k, line). path_str p @ ascii '':'' @ str_of_nat k @ ascii '': ''
                               @ make_preview line)
             (filter (\<lambda>(k, line). search CYRILLIC_PATTERN line)
                (enumerate 1 (splitlines text))))" for p
    by (simp add: scan_file_def scan_lines_enumerate format_violation_def
        split: sum.splits os_error.splits)
  have v: "\<forall>c\<in>set v. \<not> is_linebreak c" if "v \<in> set (concat (map (scan_file w) files))" for v
  proof -
    from that obtain p where p: "p \<in> set files" and "v \<in> set (scan_file w p)"
      by auto
    with list_changed_files_raw [OF assms(1) p] show ?thesis
      using scan_file_no_linebreak by blast
  qed
  have dash: "\<forall>c\<in>set (ascii ''- ''). \<not> is_linebreak c"
    by (simp add: ascii_def is_linebreak_def)
  have 5: "\<forall>printed\<in>set (fst (main w)). \<forall>c\<in>set printed. \<not> is_linebreak c"
    unfolding 1 using v dash messages_no_linebreak(2,3) by auto
  from 1 2 3 4 5 show ?thesis by blast
qed

theorem report_lines_witness:
  "list_changed_files scenario_a (resolve_diff_range scenario_a)
     = Inr [Path (ascii ''a.md''), Path (ascii ''b.py'')]
   \<and> concat (map (scan_file scenario_a) [Path (ascii ''a.md''), Path (ascii ''b.py'')]) \<noteq> []
   \<and> fst (main scenario_a) = [msg_header, ascii ''- '' @ ascii ''b.py:3: '' @ cyrillic_line, msg_advice]
   \<and> exit_status scenario_a = 1"
proof -
  have v: "concat (map (scan_file scenario_a) [Path (ascii ''a.md''), Path (ascii ''b.py'')]) \<noteq> []"
    by (simp add: scenario_a_scan_a_md scenario_a_scan_b_py)
  note t = report_lines [OF scenario_a_files v]
  from t have 1: "fst (main scenario_a)
      = [msg_header, ascii ''- '' @ ascii ''b.py:3: '' @ cyrillic_line, msg_advice]"
    by (simp add: scenario_a_scan_a_md scenario_a_scan_b_py)
  from t have 2: "exit_status scenario_a = 1"
    by blast
  from scenario_a_files v 1 2 show ?thesis by blast
qed

end
